theory Spec2Isabelle
  imports Complex_Main "HOL-Library.Word"
begin

section \<open>Driver DMODEL decoding: a model of driver\_dmodel.py\<close>

text \<open>
  The importer decodes a DMODEL file held in memory as a Python \<open>bytes\<close> value.
  A buffer is a list of 8-bit words. Offsets and counts are the unsigned header fields
  (u16 and u32 values), so they are natural numbers here. Every exception the Python code
  can raise is a value of \<open>error\<close>; a function that may raise returns \<open>error + 'a\<close>
  with \<open>Inl\<close> for the exception.
\<close>

subsection \<open>Bytes, exceptions and the primitive reads\<close>

type_synonym byte = "8 word"
type_synonym bytes = "byte list"

text \<open>
  The exceptions of the decoding code:
  \<^item> \<open>TruncatedHeader\<close> is \<^verbatim>\<open>ValueError("File too small to be a valid DMODEL")\<close>;
  \<^item> \<open>CommandBufferOverrun cmd_idx p\<close> is
    \<^verbatim>\<open>ValueError(f"Command buffer overrun at command {cmd_idx}, offset 0x{p:x}")\<close>;
  \<^item> \<open>UnknownOpcode op p\<close> is \<^verbatim>\<open>ValueError(f"Unknown opcode 0x{op:02X} at offset 0x{p:X}")\<close>;
  \<^item> \<open>StructError\<close> is the \<^verbatim>\<open>struct.error\<close> that \<^verbatim>\<open>struct.unpack_from\<close> raises when
    the buffer holds fewer bytes after the offset than the format needs;
  \<^item> \<open>IndexError\<close> is raised by \<^verbatim>\<open>data[i]\<close> when \<open>i\<close> is not below \<^verbatim>\<open>len(data)\<close>.
\<close>

datatype error =
    TruncatedHeader
  | CommandBufferOverrun nat nat
  | UnknownOpcode nat nat
  | StructError
  | IndexError

text \<open>Sequencing of statements that may raise: the first exception ends the run.\<close>

definition ebind :: "error + 'a \<Rightarrow> ('a \<Rightarrow> error + 'b) \<Rightarrow> error + 'b" where
  "ebind m f = (case m of Inl e \<Rightarrow> Inl e | Inr v \<Rightarrow> f v)"

text \<open>\<^verbatim>\<open>data[i]\<close> on a bytes object: the byte as an integer in 0..255, or IndexError.\<close>

definition getitem :: "bytes \<Rightarrow> nat \<Rightarrow> error + nat" where
  "getitem data i = (if i < length data then Inr (unat (data ! i)) else Inl IndexError)"

text \<open>
  \<^verbatim>\<open>struct.unpack_from\<close> first checks that \<open>sz\<close> bytes are available from \<open>off\<close> on and
  raises \<^verbatim>\<open>struct.error\<close> otherwise; then it decodes that slice.
\<close>

definition unpack_slice :: "nat \<Rightarrow> bytes \<Rightarrow> nat \<Rightarrow> error + bytes" where
  "unpack_slice sz data off =
     (if length data < off + sz then Inl StructError else Inr (take sz (drop off data)))"

text \<open>An unsigned little-endian integer: the first byte is the least significant.\<close>

fun le_uint :: "bytes \<Rightarrow> nat" where
  "le_uint [] = 0"
| "le_uint (b # bs) = unat b + 256 * le_uint bs"

text \<open>\<^verbatim>\<open>struct.unpack_from("<H", data, off)[0]\<close> and \<^verbatim>\<open>struct.unpack_from("<I", data, off)[0]\<close>.\<close>

definition read_u16 :: "bytes \<Rightarrow> nat \<Rightarrow> error + nat" where
  "read_u16 data off = ebind (unpack_slice 2 data off) (\<lambda>bs. Inr (le_uint bs))"

definition read_u32 :: "bytes \<Rightarrow> nat \<Rightarrow> error + nat" where
  "read_u32 data off = ebind (unpack_slice 4 data off) (\<lambda>bs. Inr (le_uint bs))"

text \<open>\<^verbatim>\<open>struct.unpack_from("<HHH", data, off)\<close>: one bounds check for all six bytes.\<close>

definition unpack_HHH :: "bytes \<Rightarrow> nat \<Rightarrow> error + (nat \<times> nat \<times> nat)" where
  "unpack_HHH data off =
     ebind (unpack_slice 6 data off)
       (\<lambda>bs. Inr (le_uint (take 2 bs), le_uint (take 2 (drop 2 bs)), le_uint (take 2 (drop 4 bs))))"

subsection \<open>The header\<close>

record header =
  vertex_count :: nat
  poly_cmd_count :: nat
  mesh_count :: nat
  vert_offset :: nat
  plane_offset :: nat
  normal_offset :: nat
  cmd_offset :: nat

definition decode_header :: "bytes \<Rightarrow> error + header" where
  "decode_header data =
     (if length data < 0x30 then Inl TruncatedHeader
      else
        ebind (read_u16 data 0x14) (\<lambda>vc.
        ebind (read_u16 data 0x16) (\<lambda>pc.
        ebind (read_u16 data 0x1A) (\<lambda>mc.
        ebind (read_u32 data 0x20) (\<lambda>vo.
        ebind (read_u32 data 0x24) (\<lambda>po.
        ebind (read_u32 data 0x28) (\<lambda>no.
        ebind (read_u32 data 0x2C) (\<lambda>co.
        Inr \<lparr>vertex_count = vc, poly_cmd_count = pc, mesh_count = mc,
             vert_offset = vo, plane_offset = po, normal_offset = no,
             cmd_offset = co\<rparr>))))))))"

subsection \<open>The polygon command stream\<close>

text \<open>
  The loop of \<^verbatim>\<open>_parse_poly_commands\<close> keeps the cursor \<open>p\<close> and the three output
  lists. A texture coordinate is \<^verbatim>\<open>data[i] / 256.0\<close>: a byte divided by a power of two is
  exact in binary floating point, so the quotient is the real number \<open>b / 256\<close>.
\<close>

type_synonym triangle = "nat \<times> nat \<times> nat"
type_synonym uv = "real \<times> real"

record pstate =
  cursor :: nat
  tris :: "triangle list"
  uvs_per_tri :: "uv list list"
  mat_ids :: "nat list"

definition uv_byte :: "bytes \<Rightarrow> nat \<Rightarrow> error + real" where
  "uv_byte data i = ebind (getitem data i) (\<lambda>b. Inr (real b / 256))"

text \<open>One triangle appended to all three lists (the three \<^verbatim>\<open>append\<close> calls of a branch).\<close>

definition emit :: "triangle \<Rightarrow> uv list \<Rightarrow> nat \<Rightarrow> pstate \<Rightarrow> pstate" where
  "emit t uvs mesh_id s =
     s\<lparr>tris := tris s @ [t], uvs_per_tri := uvs_per_tri s @ [uvs], mat_ids := mat_ids s @ [mesh_id]\<rparr>"

definition advance :: "nat \<Rightarrow> pstate \<Rightarrow> pstate" where
  "advance k s = s\<lparr>cursor := cursor s + k\<rparr>"

text \<open>Opcode 0x10: simple triangle, indices only.\<close>

definition op_0x10 :: "bytes \<Rightarrow> nat \<Rightarrow> pstate \<Rightarrow> error + pstate" where
  "op_0x10 data mesh_id s =
     (let p = cursor s in
      ebind (unpack_HHH data (p + 2)) (\<lambda>(i0, i1, i2).
      Inr (advance 0x10 (emit (i0, i1, i2) (replicate 3 (0, 0)) mesh_id s))))"

text \<open>Opcode 0x12: triangle with reordered indices, no UVs.\<close>

definition op_0x12 :: "bytes \<Rightarrow> nat \<Rightarrow> pstate \<Rightarrow> error + pstate" where
  "op_0x12 data mesh_id s =
     (let p = cursor s in
      ebind (read_u16 data (p + 2)) (\<lambda>a.
      ebind (read_u16 data (p + 4)) (\<lambda>b.
      ebind (read_u16 data (p + 6)) (\<lambda>c.
      Inr (advance 0x14 (emit (c, b, a) (replicate 3 (0, 0)) mesh_id s))))))"

text \<open>Opcode 0x13: skipped, no geometry.\<close>

definition op_0x13 :: "pstate \<Rightarrow> error + pstate" where
  "op_0x13 s = Inr (advance 0x16 s)"

text \<open>
  A single triangle with UVs; the three UV pairs start at \<open>p + uvo\<close>. Opcode 0x14 has
  them at 0x0A and a record of 0x14 bytes, opcode 0x16 at 0x0E and a record of 0x18 bytes: the two
  branches of the source differ in these two constants only.
\<close>

definition op_tri_uv :: "nat \<Rightarrow> nat \<Rightarrow> bytes \<Rightarrow> nat \<Rightarrow> pstate \<Rightarrow> error + pstate" where
  "op_tri_uv uvo len data mesh_id s =
     (let p = cursor s in
      ebind (read_u16 data (p + 2)) (\<lambda>a.
      ebind (read_u16 data (p + 4)) (\<lambda>b.
      ebind (read_u16 data (p + 6)) (\<lambda>c.
      ebind (uv_byte data (p + uvo)) (\<lambda>u2.
      ebind (uv_byte data (p + uvo + 1)) (\<lambda>v2.
      ebind (uv_byte data (p + uvo + 2)) (\<lambda>u1.
      ebind (uv_byte data (p + uvo + 3)) (\<lambda>v1.
      ebind (uv_byte data (p + uvo + 4)) (\<lambda>u0.
      ebind (uv_byte data (p + uvo + 5)) (\<lambda>v0.
      Inr (advance len (emit (c, b, a) [(u0, v0), (u1, v1), (u2, v2)] mesh_id s))))))))))))"

text \<open>
  A quad as two triangles with UVs; the four UV pairs start at \<open>p + uvo\<close> and are named
  C, B, A, D in file order by the source. Opcode 0x15 has them at 0x0C and a record of 0x18
  bytes, opcode 0x17 at 0x14 and a record of 0x20 bytes.
\<close>

definition op_quad_uv :: "nat \<Rightarrow> nat \<Rightarrow> bytes \<Rightarrow> nat \<Rightarrow> pstate \<Rightarrow> error + pstate" where
  "op_quad_uv uvo len data mesh_id s =
     (let p = cursor s in
      ebind (read_u16 data (p + 2)) (\<lambda>a.
      ebind (read_u16 data (p + 4)) (\<lambda>b.
      ebind (read_u16 data (p + 6)) (\<lambda>c.
      ebind (read_u16 data (p + 8)) (\<lambda>d.
      ebind (uv_byte data (p + uvo)) (\<lambda>uC.
      ebind (uv_byte data (p + uvo + 1)) (\<lambda>vC.
      ebind (uv_byte data (p + uvo + 2)) (\<lambda>uB.
      ebind (uv_byte data (p + uvo + 3)) (\<lambda>vB.
      ebind (uv_byte data (p + uvo + 4)) (\<lambda>uA.
      ebind (uv_byte data (p + uvo + 5)) (\<lambda>vA.
      ebind (uv_byte data (p + uvo + 6)) (\<lambda>uD.
      ebind (uv_byte data (p + uvo + 7)) (\<lambda>vD.
      Inr (advance len
            (emit (d, c, a) [(uD, vD), (uA, vA), (uC, vC)] mesh_id
              (emit (c, b, a) [(uA, vA), (uB, vB), (uC, vC)] mesh_id s))))))))))))))))"

text \<open>
  The body of the loop for command \<open>cmd_idx\<close>: the cursor check, the opcode and mesh id
  bytes (the second read raises IndexError when the opcode is the last byte of the buffer),
  then the branch of the opcode.
\<close>

definition parse_command :: "bytes \<Rightarrow> nat \<Rightarrow> pstate \<Rightarrow> error + pstate" where
  "parse_command data cmd_idx s =
     (let p = cursor s; n = length data in
      if p \<ge> n then Inl (CommandBufferOverrun cmd_idx p)
      else
        ebind (getitem data p) (\<lambda>op.
        ebind (getitem data (p + 1)) (\<lambda>mesh_id.
          if op = 0x10 then op_0x10 data mesh_id s
          else if op = 0x12 then op_0x12 data mesh_id s
          else if op = 0x13 then op_0x13 s
          else if op = 0x14 then op_tri_uv 0x0A 0x14 data mesh_id s
          else if op = 0x15 then op_quad_uv 0x0C 0x18 data mesh_id s
          else if op = 0x16 then op_tri_uv 0x0E 0x18 data mesh_id s
          else if op = 0x17 then op_quad_uv 0x14 0x20 data mesh_id s
          else Inl (UnknownOpcode op p))))"

text \<open>
  \<^verbatim>\<open>for cmd_idx in range(poly_cmd_count)\<close>, from command \<open>cmd_idx\<close> on: an exception in
  the body leaves the loop and the function.
\<close>

function parse_loop :: "bytes \<Rightarrow> nat \<Rightarrow> nat \<Rightarrow> pstate \<Rightarrow> error + pstate" where
  "parse_loop data cmd_count cmd_idx s =
     (if cmd_idx < cmd_count
      then (case parse_command data cmd_idx s of
              Inl e \<Rightarrow> Inl e
            | Inr s' \<Rightarrow> parse_loop data cmd_count (Suc cmd_idx) s')
      else Inr s)"
  by pat_completeness auto
termination
  by (relation "measure (\<lambda>(data, cmd_count, cmd_idx, s). cmd_count - cmd_idx)") auto

declare parse_loop.simps [simp del]

definition init_state :: "nat \<Rightarrow> pstate" where
  "init_state cmd_off = \<lparr>cursor = cmd_off, tris = [], uvs_per_tri = [], mat_ids = []\<rparr>"

definition parse_poly_commands ::
  "bytes \<Rightarrow> nat \<Rightarrow> nat \<Rightarrow> error + (triangle list \<times> uv list list \<times> nat list)" where
  "parse_poly_commands data cmd_off cmd_count =
     ebind (parse_loop data cmd_count 0 (init_state cmd_off))
       (\<lambda>s. Inr (tris s, uvs_per_tri s, mat_ids s))"

subsection \<open>Floating point values and the vertex array\<close>

text \<open>
  A Python float is an IEEE 754 binary64 value. A finite value is kept as its sign and its
  exact magnitude (so that \<open>-0.0\<close> and \<open>0.0\<close> differ, as they do in Python); the NaNs are one
  value. \<open>Finite True m\<close> is the negative number of magnitude \<open>m\<close>.
\<close>

datatype pyfloat = Finite bool real | Infinity bool | NaN

text \<open>
  The value of the binary32 bit pattern \<open>w\<close> that the format \<^verbatim>\<open><f\<close> unpacks: sign bit,
  8 exponent bits (bias 127), 23 fraction bits. Every binary32 value is a binary64 value, so
  the conversion to a Python float is exact.
\<close>

definition f32_value :: "nat \<Rightarrow> pyfloat" where
  "f32_value w =
     (let neg = (w div 2 ^ 31 = 1); e = (w div 2 ^ 23) mod 256; f = w mod 2 ^ 23 in
      if e = 255 then (if f = 0 then Infinity neg else NaN)
      else if e = 0 then Finite neg (real f / 2 ^ 149)
      else if e < 150 then Finite neg (real (2 ^ 23 + f) / 2 ^ (150 - e))
      else Finite neg (real (2 ^ 23 + f) * 2 ^ (e - 150)))"

text \<open>\<^verbatim>\<open>struct.unpack_from("<fff", data, off)\<close>: one bounds check for all twelve bytes.\<close>

definition unpack_fff :: "bytes \<Rightarrow> nat \<Rightarrow> error + (pyfloat \<times> pyfloat \<times> pyfloat)" where
  "unpack_fff data off =
     ebind (unpack_slice 12 data off)
       (\<lambda>bs. Inr (f32_value (le_uint (take 4 bs)),
                  f32_value (le_uint (take 4 (drop 4 bs))),
                  f32_value (le_uint (take 4 (drop 8 bs)))))"

text \<open>Unary minus flips the sign, also of a zero and of an infinity.\<close>

fun py_neg :: "pyfloat \<Rightarrow> pyfloat" where
  "py_neg (Finite neg m) = Finite (\<not> neg) m"
| "py_neg (Infinity neg) = Infinity (\<not> neg)"
| "py_neg NaN = NaN"

text \<open>
  Division rounds the exact quotient to the nearest binary64 value, ties to even. For a
  magnitude \<open>m > 0\<close> with \<open>2 ^ e \<le> m < 2 ^ (e + 1)\<close> the neighbours are the multiples of
  \<open>2 ^ (e - 52)\<close>; below the normal range (\<open>e < -1022\<close>) the spacing stays \<open>2 ^ -1074\<close>.
\<close>

fun bit_length :: "nat \<Rightarrow> nat" where
  "bit_length n = (if n = 0 then 0 else Suc (bit_length (n div 2)))"

declare bit_length.simps [simp del]

definition floor_log2 :: "real \<Rightarrow> int" where
  "floor_log2 m =
     (if 1 \<le> m then int (bit_length (nat \<lfloor>m\<rfloor>)) - 1
      else - int (bit_length (nat (\<lceil>1 / m\<rceil> - 1))))"

definition pow2 :: "int \<Rightarrow> real" where
  "pow2 e = (if 0 \<le> e then 2 ^ nat e else 1 / 2 ^ nat (- e))"

definition round_half_even :: "real \<Rightarrow> int" where
  "round_half_even q =
     (let k = \<lfloor>q\<rfloor>; r = q - of_int k in
      if r < 1 / 2 then k else if 1 / 2 < r then k + 1 else if even k then k else k + 1)"

definition round_double :: "real \<Rightarrow> real" where
  "round_double m =
     (if m = 0 then 0
      else let e = max (floor_log2 m) (- 1022); ulp = pow2 (e - 52)
           in of_int (round_half_even (m / ulp)) * ulp)"

text \<open>
  \<^verbatim>\<open>x / 10.0\<close>. The quotient of a finite binary64 value by ten is below the largest
  binary64 value, so the division never overflows.
\<close>

fun py_div10 :: "pyfloat \<Rightarrow> pyfloat" where
  "py_div10 (Finite neg m) = Finite neg (round_double (m / 10))"
| "py_div10 (Infinity neg) = Infinity neg"
| "py_div10 NaN = NaN"

type_synonym vertex = "pyfloat \<times> pyfloat \<times> pyfloat"

text \<open>\<^verbatim>\<open>for i in range(vertex_count)\<close> of \<^verbatim>\<open>_read_vertices\<close>, from index \<open>i\<close> on.\<close>

function read_vertices_loop :: "bytes \<Rightarrow> nat \<Rightarrow> nat \<Rightarrow> nat \<Rightarrow> vertex list \<Rightarrow> error + vertex list" where
  "read_vertices_loop data base vert_count i verts =
     (if i < vert_count
      then (case unpack_fff data (base + i * 12) of
              Inl e \<Rightarrow> Inl e
            | Inr (x, y, z) \<Rightarrow>
                read_vertices_loop data base vert_count (Suc i)
                  (verts @ [(py_div10 (py_neg x), py_div10 (py_neg y), py_div10 z)]))
      else Inr verts)"
  by pat_completeness auto
termination
  by (relation "measure (\<lambda>(data, base, vert_count, i, verts). vert_count - i)") auto

declare read_vertices_loop.simps [simp del]

definition read_vertices :: "bytes \<Rightarrow> nat \<Rightarrow> nat \<Rightarrow> error + vertex list" where
  "read_vertices data vert_off vert_count = read_vertices_loop data vert_off vert_count 0 []"

text \<open>
  The binary32 value stored at \<open>off\<close>, and the vertex that the loop body appends for the
  record at \<open>off\<close>: \<^verbatim>\<open>(-x / 10.0, -y / 10.0, z / 10.0)\<close>.
\<close>

definition f32_at :: "bytes \<Rightarrow> nat \<Rightarrow> pyfloat" where
  "f32_at data off = f32_value (le_uint (take 4 (drop off data)))"

definition vertex_at :: "bytes \<Rightarrow> nat \<Rightarrow> vertex" where
  "vertex_at data off =
     (py_div10 (py_neg (f32_at data off)),
      py_div10 (py_neg (f32_at data (off + 4))),
      py_div10 (f32_at data (off + 8)))"

subsection \<open>The decoding of a file\<close>

text \<open>
  The three calls in the \<^verbatim>\<open>try\<close> block of \<^verbatim>\<open>execute\<close>: header, vertices, commands.
  Any exception cancels the import.
\<close>

definition decode ::
  "bytes \<Rightarrow> error + (vertex list \<times> triangle list \<times> uv list list \<times> nat list)" where
  "decode data =
     ebind (decode_header data) (\<lambda>hdr.
     ebind (read_vertices data (vert_offset hdr) (vertex_count hdr)) (\<lambda>verts.
     ebind (parse_poly_commands data (cmd_offset hdr) (poly_cmd_count hdr)) (\<lambda>(ts, uvs, mids).
     Inr (verts, ts, uvs, mids))))"

subsection \<open>Values named in the statements\<close>

text \<open>
  The little-endian u16 at \<open>off\<close> and the UV pair whose two bytes start at \<open>off\<close>,
  as plain reads of the buffer. They are what \<open>read_u16\<close> and two \<open>uv_byte\<close> calls
  return when the bytes lie in the buffer.
\<close>

definition u16_at :: "bytes \<Rightarrow> nat \<Rightarrow> nat" where
  "u16_at data off = unat (data ! off) + 256 * unat (data ! (off + 1))"

definition uv_at :: "bytes \<Rightarrow> nat \<Rightarrow> uv" where
  "uv_at data off = (real (unat (data ! off)) / 256, real (unat (data ! (off + 1))) / 256)"

text \<open>
  The opcode table of the specification, index part: the index triples that the command
  record at \<open>p\<close> stands for, after the reordering of its opcode. It is compared with
  what \<open>parse_command\<close> appends.
\<close>

definition command_triangles :: "bytes \<Rightarrow> nat \<Rightarrow> triangle list" where
  "command_triangles data p =
     (let op = unat (data ! p);
          a = u16_at data (p + 2); b = u16_at data (p + 4);
          c = u16_at data (p + 6); d = u16_at data (p + 8)
      in if op = 0x10 then [(a, b, c)]
         else if op = 0x12 \<or> op = 0x14 \<or> op = 0x16 then [(c, b, a)]
         else if op = 0x15 \<or> op = 0x17 then [(c, b, a), (d, c, a)]
         else [])"

text \<open>
  The state \<open>s'\<close> extends \<open>s\<close> by the same rows (triangle, UV triple, mesh id) on
  all three output lists.
\<close>

definition lockstep :: "pstate \<Rightarrow> pstate \<Rightarrow> bool" where
  "lockstep s s' \<longleftrightarrow>
     (\<exists>rows. tris s' = tris s @ map fst rows \<and>
             uvs_per_tri s' = uvs_per_tri s @ map (fst \<circ> snd) rows \<and>
             mat_ids s' = mat_ids s @ map (snd \<circ> snd) rows)"

subsection \<open>Sample inputs\<close>

text \<open>A header of exactly 0x30 bytes with distinct field values.\<close>

definition sample_header :: bytes where
  "sample_header = replicate 0x14 0 @ [3, 1, 2, 0, 0, 0, 5, 0] @ replicate 4 0 @
     [0x30, 0, 0, 0,  0x54, 0, 0, 0,  0x78, 0x56, 0x34, 0x12,  0x60, 0, 1, 0]"

text \<open>One vertex record holding the binary32 values 10.0, 20.0 and 30.0.\<close>

definition sample_vertex :: bytes where
  "sample_vertex = [0, 0, 0x20, 0x41,  0, 0, 0xA0, 0x41,  0, 0, 0xF0, 0x41]"

text \<open>
  Command records: a 0x15 quad with four distinct UV pairs, the 0x14 triangle with indices
  (1, 2, 3) and UV bytes 128, 64 / 0, 0 / 255, 255, a 0x10 record cut after its indices, and a
  0x13 record followed by the unknown opcode 0xFF.
\<close>

definition sample_quad :: bytes where
  "sample_quad = [0x15, 9,  1, 0,  2, 0,  3, 0,  4, 0,  0, 0,
                  0x10, 0x11,  0x20, 0x21,  0x30, 0x31,  0x40, 0x41,  0, 0, 0, 0]"

definition sample_tri_uv :: bytes where
  "sample_tri_uv = [0x14, 9,  1, 0,  2, 0,  3, 0,  0, 0,  128, 64,  0, 0,  255, 255,  0, 0, 0, 0]"

definition short_tri :: bytes where
  "short_tri = [0x10, 7,  1, 0,  2, 0,  3, 0]"

definition unknown_stream :: bytes where
  "unknown_stream = [0x13, 0] @ replicate 20 0 @ [0xFF, 0]"

text \<open>
  A whole file: the header (one vertex at 0x30, one command at 0x3C), the vertex
  (10.0, 20.0, 30.0) and a 0x12 command with the indices 5, 6, 7.
\<close>

definition sample_file :: bytes where
  "sample_file =
     [0, 0, 0, 0,  0, 0, 0, 0,  0, 0, 0, 0,  0, 0, 0, 0,
      0, 0, 0, 0,  1, 0, 1, 0,  0, 0, 0, 0,  0, 0, 0, 0,
      0x30, 0, 0, 0,  0, 0, 0, 0,  0, 0, 0, 0,  0x3C, 0, 0, 0,
      0, 0, 0x20, 0x41,  0, 0, 0xA0, 0x41,  0, 0, 0xF0, 0x41,
      0x12, 4,  5, 0,  6, 0,  7, 0,  0, 0, 0, 0,  0, 0, 0, 0,  0, 0, 0, 0]"

section \<open>Basic facts\<close>

lemma ebind_Inl [simp]: "ebind (Inl e) f = Inl e"
  by (simp add: ebind_def)

lemma ebind_Inr [simp]: "ebind (Inr v) f = f v"
  by (simp add: ebind_def)

lemma ebind_eq_Inr: "ebind m f = Inr y \<longleftrightarrow> (\<exists>v. m = Inr v \<and> f v = Inr y)"
  by (cases m) simp_all

lemma take_drop_2:
  "off + 2 \<le> length xs \<Longrightarrow> take 2 (drop off xs) = [xs ! off, xs ! (off + 1)]"
  by (simp add: list_eq_iff_nth_eq nth_Cons' numeral_2_eq_2 less_Suc_eq)

lemma take_drop_4:
  "off + 4 \<le> length xs \<Longrightarrow>
   take 4 (drop off xs) = [xs ! off, xs ! (off + 1), xs ! (off + 2), xs ! (off + 3)]"
  by (auto simp add: list_eq_iff_nth_eq nth_Cons' less_Suc_eq numeral_eq_Suc)

lemma read_u16_in_range:
  "off + 2 \<le> length data \<Longrightarrow>
   read_u16 data off = Inr (unat (data ! off) + 256 * unat (data ! (off + 1)))"
  by (simp add: read_u16_def unpack_slice_def take_drop_2)

lemma read_u16_out_of_range:
  "length data < off + 2 \<Longrightarrow> read_u16 data off = Inl StructError"
  by (simp add: read_u16_def unpack_slice_def)

lemma read_u32_in_range:
  "off + 4 \<le> length data \<Longrightarrow>
   read_u32 data off =
     Inr (unat (data ! off) + 256 * unat (data ! (off + 1)) +
          65536 * unat (data ! (off + 2)) + 16777216 * unat (data ! (off + 3)))"
  by (simp add: read_u32_def unpack_slice_def take_drop_4)

section \<open>The header decoder\<close>

text \<open>
  Claim C5. A buffer shorter than 0x30 bytes is rejected with TruncatedHeader whatever it
  holds. A buffer of at least 0x30 bytes always decodes, and the fields are the
  little-endian values at the fixed offsets: u16 \<open>vertex_count\<close> at 0x14,
  \<open>poly_cmd_count\<close> at 0x16, \<open>mesh_count\<close> at 0x1A; u32 \<open>vert_offset\<close> at 0x20,
  \<open>plane_offset\<close> at 0x24, \<open>normal_offset\<close> at 0x28, \<open>cmd_offset\<close> at 0x2C.
\<close>

theorem decode_header_fields:
  "(length data < 0x30 \<longrightarrow> decode_header data = Inl TruncatedHeader) \<and>
   (0x30 \<le> length data \<longrightarrow>
      decode_header data =
        Inr \<lparr>vertex_count = unat (data ! 0x14) + 256 * unat (data ! 0x15),
             poly_cmd_count = unat (data ! 0x16) + 256 * unat (data ! 0x17),
             mesh_count = unat (data ! 0x1A) + 256 * unat (data ! 0x1B),
             vert_offset = unat (data ! 0x20) + 256 * unat (data ! 0x21) +
                           65536 * unat (data ! 0x22) + 16777216 * unat (data ! 0x23),
             plane_offset = unat (data ! 0x24) + 256 * unat (data ! 0x25) +
                            65536 * unat (data ! 0x26) + 16777216 * unat (data ! 0x27),
             normal_offset = unat (data ! 0x28) + 256 * unat (data ! 0x29) +
                             65536 * unat (data ! 0x2A) + 16777216 * unat (data ! 0x2B),
             cmd_offset = unat (data ! 0x2C) + 256 * unat (data ! 0x2D) +
                          65536 * unat (data ! 0x2E) + 16777216 * unat (data ! 0x2F)\<rparr>)"
proof (intro conjI impI)
  assume "length data < 0x30"
  then show "decode_header data = Inl TruncatedHeader"
    by (simp add: decode_header_def)
next
  assume len: "0x30 \<le> length data"
  then show "decode_header data =
        Inr \<lparr>vertex_count = unat (data ! 0x14) + 256 * unat (data ! 0x15),
             poly_cmd_count = unat (data ! 0x16) + 256 * unat (data ! 0x17),
             mesh_count = unat (data ! 0x1A) + 256 * unat (data ! 0x1B),
             vert_offset = unat (data ! 0x20) + 256 * unat (data ! 0x21) +
                           65536 * unat (data ! 0x22) + 16777216 * unat (data ! 0x23),
             plane_offset = unat (data ! 0x24) + 256 * unat (data ! 0x25) +
                            65536 * unat (data ! 0x26) + 16777216 * unat (data ! 0x27),
             normal_offset = unat (data ! 0x28) + 256 * unat (data ! 0x29) +
                             65536 * unat (data ! 0x2A) + 16777216 * unat (data ! 0x2B),
             cmd_offset = unat (data ! 0x2C) + 256 * unat (data ! 0x2D) +
                          65536 * unat (data ! 0x2E) + 16777216 * unat (data ! 0x2F)\<rparr>"
    by (simp add: decode_header_def read_u16_in_range read_u32_in_range)
qed

theorem decode_header_fields_witness:
  "decode_header [1, 2, 3] = Inl TruncatedHeader \<and>
   decode_header sample_header =
     Inr \<lparr>vertex_count = 259, poly_cmd_count = 2, mesh_count = 5,
          vert_offset = 0x30, plane_offset = 0x54, normal_offset = 0x12345678,
          cmd_offset = 0x10060\<rparr>"
  using decode_header_fields [of "[1, 2, 3]"] decode_header_fields [of sample_header]
  by (simp add: sample_header_def nth_append)

section \<open>The floating point model\<close>

text \<open>
  The exponent found by \<open>floor_log2\<close> is the binary exponent of the magnitude, and
  \<open>round_double\<close> returns a multiple of the spacing at most half a spacing away from its
  argument; a magnitude that is such a multiple is returned unchanged.
\<close>

lemma bit_length_bounds:
  "0 < n \<Longrightarrow> 2 ^ (bit_length n - 1) \<le> n \<and> n < 2 ^ bit_length n"
proof (induction n rule: bit_length.induct)
  case (1 n)
  show ?case
  proof (cases "n div 2 = 0")
    case True
    with "1.prems" have "n = 1"
      by (simp add: div_eq_0_iff) 
    then show ?thesis
      by (simp add: bit_length.simps [of "Suc 0"] bit_length.simps [of 0])
  next
    case False
    then have pos: "0 < n div 2" and n0: "n \<noteq> 0"
      by auto
    from "1.IH" [OF n0 pos] have
      lo: "2 ^ (bit_length (n div 2) - 1) \<le> n div 2" and hi: "n div 2 < 2 ^ bit_length (n div 2)"
      by simp_all
    have bl: "bit_length n = Suc (bit_length (n div 2))"
      using n0 by (simp add: bit_length.simps [of n])
    have "0 < bit_length (n div 2)"
      using pos by (simp add: bit_length.simps [of "n div 2"])
    then have "2 ^ (bit_length n - 1) = 2 * (2::nat) ^ (bit_length (n div 2) - 1)"
      unfolding bl by (cases "bit_length (n div 2)") simp_all
    also have "\<dots> \<le> 2 * (n div 2)"
      using lo by simp
    also have "\<dots> \<le> n"
      by simp
    finally have a: "2 ^ (bit_length n - 1) \<le> n" .
    have "n < 2 * (n div 2) + 2"
      by arith
    also have "\<dots> \<le> 2 * 2 ^ bit_length (n div 2)"
      using hi by simp
    finally have "n < 2 ^ bit_length n"
      unfolding bl by simp
    with a show ?thesis ..
  qed
qed

lemma pow2_of_nat: "pow2 (int n) = 2 ^ n"
  by (simp add: pow2_def)

lemma pow2_neg_of_nat: "pow2 (- int n) = 1 / 2 ^ n"
  by (auto simp add: pow2_def)

lemma pow2_pos: "0 < pow2 e"
  by (simp add: pow2_def)

lemma floor_log2_bounds:
  assumes "0 < m"
  shows "pow2 (floor_log2 m) \<le> m \<and> m < pow2 (floor_log2 m + 1)"
proof (cases "1 \<le> m")
  case True
  define n where "n = nat \<lfloor>m\<rfloor>"
  from True have n: "0 < n" "real n \<le> m" "m < real n + 1"
    unfolding n_def by (simp_all add: of_nat_nat)
  from bit_length_bounds [OF n(1)] have
    lo: "2 ^ (bit_length n - 1) \<le> n" and hi: "n < 2 ^ bit_length n"
    by simp_all
  from n(1) have bl: "0 < bit_length n"
    by (simp add: bit_length.simps [of n])
  then have e: "floor_log2 m = int (bit_length n - 1)" "floor_log2 m + 1 = int (bit_length n)"
    using True by (simp_all add: floor_log2_def n_def)
  have "pow2 (floor_log2 m) = 2 ^ (bit_length n - 1)"
    unfolding e by (rule pow2_of_nat)
  also have "\<dots> \<le> real n"
    using of_nat_mono [OF lo, where ?'a = real] by simp
  finally have a: "pow2 (floor_log2 m) \<le> m"
    using n(2) by simp
  from hi have "n + 1 \<le> 2 ^ bit_length n"
    by simp
  then have "real (n + 1) \<le> real (2 ^ bit_length n)"
    by (rule of_nat_mono)
  then have "real n + 1 \<le> 2 ^ bit_length n"
    by simp
  moreover have "pow2 (floor_log2 m + 1) = 2 ^ bit_length n"
    by (simp only: e(2) pow2_of_nat)
  ultimately have "m < pow2 (floor_log2 m + 1)"
    using n(3) by simp
  with a show ?thesis ..
next
  case False
  define j where "j = nat (\<lceil>1 / m\<rceil> - 1)"
  from False assms have r: "1 < 1 / m"
    by simp
  then have c: "2 \<le> \<lceil>1 / m\<rceil>"
    by linarith
  then have nn: "0 \<le> \<lceil>1 / m\<rceil> - 1"
    by linarith
  have "real j = of_int (\<lceil>1 / m\<rceil> - 1)"
    unfolding j_def using nn by (rule of_nat_nat)
  then have rj: "real j = of_int \<lceil>1 / m\<rceil> - 1"
    by simp
  from c have j0: "0 < j"
    unfolding j_def by linarith
  have "of_int \<lceil>1 / m\<rceil> - 1 < 1 / m" "1 / m \<le> of_int \<lceil>1 / m\<rceil>"
    by linarith+
  with j0 have j: "0 < j" "real j < 1 / m" "1 / m \<le> real j + 1"
    unfolding rj by simp_all
  from bit_length_bounds [OF j(1)] have
    lo: "2 ^ (bit_length j - 1) \<le> j" and hi: "j < 2 ^ bit_length j"
    by simp_all
  from j(1) have bl: "0 < bit_length j"
    by (simp add: bit_length.simps [of j])
  from False have e: "floor_log2 m = - int (bit_length j)"
    by (simp add: floor_log2_def j_def)
  from bl have e1: "floor_log2 m + 1 = - int (bit_length j - 1)"
    unfolding e by simp
  from hi have "j + 1 \<le> 2 ^ bit_length j"
    by simp
  then have "real (j + 1) \<le> real (2 ^ bit_length j)"
    by (rule of_nat_mono)
  then have "real j + 1 \<le> 2 ^ bit_length j"
    by simp
  with j(3) have "1 / m \<le> 2 ^ bit_length j"
    by simp
  with assms have "1 / 2 ^ bit_length j \<le> m"
    by (simp add: field_simps)
  moreover have "pow2 (floor_log2 m) = 1 / 2 ^ bit_length j"
    by (simp only: e pow2_neg_of_nat)
  ultimately have a: "pow2 (floor_log2 m) \<le> m"
    by simp
  have "(2::real) ^ (bit_length j - 1) \<le> real j"
    using of_nat_mono [OF lo, where ?'a = real] by simp
  with j(2) have "2 ^ (bit_length j - 1) < 1 / m"
    by linarith
  with assms have "m < 1 / 2 ^ (bit_length j - 1)"
    by (simp add: field_simps)
  moreover have "pow2 (floor_log2 m + 1) = 1 / 2 ^ (bit_length j - 1)"
    by (simp only: e1 pow2_neg_of_nat)
  ultimately have "m < pow2 (floor_log2 m + 1)"
    by simp
  with a show ?thesis ..
qed

lemma round_half_even_near: "\<bar>of_int (round_half_even q) - q\<bar> \<le> 1 / 2"
  unfolding round_half_even_def Let_def by (auto simp: abs_le_iff)

lemma round_half_even_of_int: "round_half_even (of_int k) = k"
  by (simp add: round_half_even_def)

lemma round_double_error:
  "\<bar>round_double m - m\<bar> \<le> pow2 (max (floor_log2 m) (- 1022) - 52) / 2"
proof (cases "m = 0")
  case True
  then show ?thesis
    using pow2_pos [of "max (floor_log2 0) (- 1022) - 52"] by (simp add: round_double_def)
next
  case False
  define ulp where "ulp = pow2 (max (floor_log2 m) (- 1022) - 52)"
  have ulp: "0 < ulp"
    unfolding ulp_def by (rule pow2_pos)
  have "round_double m - m = (of_int (round_half_even (m / ulp)) - m / ulp) * ulp"
    using False ulp by (simp add: round_double_def Let_def ulp_def [symmetric] field_simps)
  then have "\<bar>round_double m - m\<bar> = \<bar>of_int (round_half_even (m / ulp)) - m / ulp\<bar> * ulp"
    using ulp by (simp add: abs_mult)
  also have "\<dots> \<le> 1 / 2 * ulp"
    using round_half_even_near [of "m / ulp"] ulp by (intro mult_right_mono) simp_all
  finally show ?thesis
    by (simp add: ulp_def)
qed

lemma round_double_exact:
  assumes "m = of_int k * pow2 (max (floor_log2 m) (- 1022) - 52)"
  shows "round_double m = m"
proof (cases "m = 0")
  case True
  then show ?thesis
    by (simp add: round_double_def)
next
  case False
  define ulp where "ulp = pow2 (max (floor_log2 m) (- 1022) - 52)"
  have ulp: "0 < ulp"
    unfolding ulp_def by (rule pow2_pos)
  from assms have "m / ulp = of_int k"
    using ulp by (simp add: ulp_def [symmetric])
  then have "round_half_even (m / ulp) = k"
    by (simp only: round_half_even_of_int)
  have "round_double m = of_int (round_half_even (m / ulp)) * ulp"
    using False by (simp add: round_double_def Let_def ulp_def)
  also have "\<dots> = of_int k * ulp"
    by (simp only: \<open>round_half_even (m / ulp) = k\<close>)
  also have "\<dots> = m"
    unfolding ulp_def by (rule assms [symmetric])
  finally show ?thesis .
qed

section \<open>The vertex decoder\<close>

lemma slice_of_slice:
  "k + m \<le> n \<Longrightarrow> take m (drop k (take n (drop off xs))) = take m (drop (off + k) xs)"
proof -
  assume "k + m \<le> n"
  then have "take m (drop k (take n (drop off xs))) = take m (drop k (drop off xs))"
    by (simp add: drop_take min_def)
  also have "\<dots> = take m (drop (off + k) xs)"
    by (simp add: add.commute [of k off])
  finally show ?thesis .
qed

lemma unpack_fff_in_range:
  "off + 12 \<le> length data \<Longrightarrow>
   unpack_fff data off = Inr (f32_at data off, f32_at data (off + 4), f32_at data (off + 8))"
  using slice_of_slice [of 0 4 12 off data] slice_of_slice [of 4 4 12 off data]
    slice_of_slice [of 8 4 12 off data]
  by (simp add: unpack_fff_def unpack_slice_def f32_at_def)

lemma unpack_fff_out_of_range:
  "length data < off + 12 \<Longrightarrow> unpack_fff data off = Inl StructError"
  by (simp add: unpack_fff_def unpack_slice_def)

lemma read_vertices_loop_eq:
  "read_vertices_loop data base cnt i verts =
     (if cnt \<le> i \<or> base + cnt * 12 \<le> length data
      then Inr (verts @ map (\<lambda>j. vertex_at data (base + j * 12)) [i..<cnt])
      else Inl StructError)"
proof (induction data base cnt i verts rule: read_vertices_loop.induct)
  case (1 data base cnt i verts)
  show ?case
  proof (cases "i < cnt")
    case False
    then show ?thesis
      by (simp add: read_vertices_loop.simps [of data base cnt i])
  next
    case True
    show ?thesis
    proof (cases "base + i * 12 + 12 \<le> length data")
      case False
      with True have "\<not> base + cnt * 12 \<le> length data"
        by arith
      with True False show ?thesis
        by (simp add: read_vertices_loop.simps [of data base cnt i] unpack_fff_out_of_range)
    next
      case ok: True
      have step: "read_vertices_loop data base cnt i verts =
          read_vertices_loop data base cnt (Suc i) (verts @ [vertex_at data (base + i * 12)])"
        using True ok
        by (simp add: read_vertices_loop.simps [of data base cnt i] unpack_fff_in_range
            vertex_at_def add.assoc)
      have ih: "read_vertices_loop data base cnt (Suc i) (verts @ [vertex_at data (base + i * 12)]) =
          (if cnt \<le> Suc i \<or> base + cnt * 12 \<le> length data
           then Inr ((verts @ [vertex_at data (base + i * 12)]) @
                     map (\<lambda>j. vertex_at data (base + j * 12)) [Suc i..<cnt])
           else Inl StructError)"
        using "1.IH" [OF True unpack_fff_in_range [OF ok] refl refl]
        by (simp only: vertex_at_def add.assoc)
      have upt: "[i..<cnt] = i # [Suc i..<cnt]"
        using True by (rule upt_conv_Cons)
      show ?thesis
      proof (cases "base + cnt * 12 \<le> length data")
        case True
        then show ?thesis
          by (simp only: step ih upt) simp
      next
        case False
        with ok \<open>i < cnt\<close> have "\<not> cnt \<le> Suc i"
          by arith
        with False \<open>i < cnt\<close> show ?thesis
          by (simp only: step ih) simp
      qed
    qed
  qed
qed


lemma read_vertices_eq:
  "read_vertices data vert_off vert_count =
     (if vert_count = 0 \<or> vert_off + vert_count * 12 \<le> length data
      then Inr (map (\<lambda>i. vertex_at data (vert_off + i * 12)) [0..<vert_count])
      else Inl StructError)"
  by (simp add: read_vertices_def read_vertices_loop_eq)

lemma overrun_iff:
  "(\<exists>i<vert_count. length data < vert_off + i * 12 + 12) \<longleftrightarrow>
   \<not> (vert_count = 0 \<or> vert_off + vert_count * 12 \<le> length data)"
proof
  assume "\<exists>i<vert_count. length data < vert_off + i * 12 + 12"
  then obtain i where "i < vert_count" "length data < vert_off + i * 12 + 12"
    by blast
  then show "\<not> (vert_count = 0 \<or> vert_off + vert_count * 12 \<le> length data)"
    by arith
next
  assume a: "\<not> (vert_count = 0 \<or> vert_off + vert_count * 12 \<le> length data)"
  then have "vert_count - 1 < vert_count" "length data < vert_off + (vert_count - 1) * 12 + 12"
    by arith+
  then show "\<exists>i<vert_count. length data < vert_off + i * 12 + 12"
    by blast
qed

lemma f32_at_sample:
  "f32_at sample_vertex 0 = Finite False 10"
  "f32_at sample_vertex 4 = Finite False 20"
  "f32_at sample_vertex 8 = Finite False 30"
  by (simp_all add: sample_vertex_def f32_at_def f32_value_def)

lemma round_double_small:
  "round_double 1 = 1" "round_double 2 = 2" "round_double 3 = 3"
  by (simp_all add: round_double_def floor_log2_def bit_length.simps pow2_def round_half_even_def)

text \<open>
  Claim C6. When the \<open>vert_count\<close> records of twelve bytes from \<open>vert_off\<close> on lie in
  the buffer, the decoder returns \<open>vert_count\<close> vertices in input order; vertex \<open>i\<close> is
  made from the three little-endian binary32 values \<open>x, y, z\<close> at \<open>vert_off + i * 12\<close>,
  \<open>+ 4\<close> and \<open>+ 8\<close> as \<open>(-x / 10, -y / 10, z / 10)\<close>, the divisions being those of
  binary64. The record (10.0, 20.0, 30.0) gives the vertex (-1.0, -2.0, 3.0): see the
  witness.
\<close>

theorem read_vertices_transform:
  "vert_off + vert_count * 12 \<le> length data \<Longrightarrow>
   (\<exists>verts. read_vertices data vert_off vert_count = Inr verts \<and>
      length verts = vert_count \<and>
      (\<forall>i<vert_count. verts ! i =
         (py_div10 (py_neg (f32_at data (vert_off + i * 12))),
          py_div10 (py_neg (f32_at data (vert_off + i * 12 + 4))),
          py_div10 (f32_at data (vert_off + i * 12 + 8)))))"
  by (simp add: read_vertices_eq vertex_at_def)

theorem read_vertices_transform_witness:
  "0 + 1 * 12 \<le> length sample_vertex \<and>
   f32_at sample_vertex 0 = Finite False 10 \<and>
   f32_at sample_vertex 4 = Finite False 20 \<and>
   f32_at sample_vertex 8 = Finite False 30 \<and>
   read_vertices sample_vertex 0 1 = Inr [(Finite True 1, Finite True 2, Finite False 3)]"
proof -
  have len: "0 + 1 * 12 \<le> length sample_vertex"
    by (simp add: sample_vertex_def)
  from read_vertices_transform [OF len] obtain verts where
    v: "read_vertices sample_vertex 0 1 = Inr verts" "length verts = 1"
      "verts ! 0 = (py_div10 (py_neg (f32_at sample_vertex 0)),
          py_div10 (py_neg (f32_at sample_vertex 4)),
          py_div10 (f32_at sample_vertex 8))"
    by auto
  from v(2) obtain x where "verts = [x]"
    by (cases verts) auto
  with v(1,3) have "read_vertices sample_vertex 0 1 = Inr [(Finite True 1, Finite True 2, Finite False 3)]"
    by (simp add: f32_at_sample round_double_small)
  with len show ?thesis
    by (simp add: f32_at_sample)
qed

text \<open>
  Claim C8. When some vertex record \<open>i < vert_count\<close> does not end within the buffer, the
  decoder fails: \<^verbatim>\<open>struct.unpack_from\<close> checks the bounds of every read itself and raises
  \<^verbatim>\<open>struct.error\<close>, which is how the code reports a vertex range overrun. No vertex is
  returned, whatever the header fields say.
\<close>

theorem read_vertices_overrun:
  "(\<exists>i<vert_count. length data < vert_off + i * 12 + 12) \<Longrightarrow>
   read_vertices data vert_off vert_count = Inl StructError"
  by (simp only: overrun_iff read_vertices_eq if_False)

theorem read_vertices_overrun_witness:
  "(\<exists>i<2. length sample_vertex < 0 + i * 12 + 12) \<and>
   read_vertices sample_vertex 0 2 = Inl StructError"
proof -
  have h: "\<exists>i<2. length sample_vertex < 0 + i * 12 + 12"
    by (rule exI [of _ 1]) (simp add: sample_vertex_def)
  from read_vertices_overrun [OF h] h show ?thesis
    by blast
qed


section \<open>The command stream interpreter\<close>

subsection \<open>The reads of a command\<close>

lemma getitem_eq_Inr:
  "getitem data i = Inr v \<longleftrightarrow> i < length data \<and> v = unat (data ! i)"
  by (auto simp add: getitem_def)

lemma uv_byte_eq_Inr:
  "uv_byte data i = Inr v \<longleftrightarrow> i < length data \<and> v = real (unat (data ! i)) / 256"
  by (auto simp add: uv_byte_def getitem_def)

lemma read_u16_eq_Inr:
  "read_u16 data off = Inr v \<longleftrightarrow> off + 2 \<le> length data \<and> v = u16_at data off"
  by (cases "off + 2 \<le> length data")
     (auto simp add: read_u16_in_range u16_at_def read_u16_out_of_range)

lemma read_u16_total:
  "read_u16 data off = (if off + 2 \<le> length data then Inr (u16_at data off) else Inl StructError)"
  by (simp add: read_u16_in_range read_u16_out_of_range u16_at_def)

lemma uv_byte_total:
  "uv_byte data i = (if i < length data then Inr (real (unat (data ! i)) / 256) else Inl IndexError)"
  by (simp add: uv_byte_def getitem_def)

lemma unpack_HHH_total:
  "unpack_HHH data off =
     (if off + 6 \<le> length data
      then Inr (u16_at data off, u16_at data (off + 2), u16_at data (off + 4))
      else Inl StructError)"
proof (cases "off + 6 \<le> length data")
  case False
  then show ?thesis
    by (simp add: unpack_HHH_def unpack_slice_def)
next
  case True
  have "le_uint (take 2 (drop k (take 6 (drop off data)))) = u16_at data (off + k)"
    if "k + 2 \<le> 6" for k
    using that True by (simp add: slice_of_slice take_drop_2 u16_at_def)
  from this [of 0] this [of 2] this [of 4] True show ?thesis
    by (simp add: unpack_HHH_def unpack_slice_def)
qed

subsection \<open>When a branch succeeds, and with what\<close>

lemma op_0x10_eq_Inr:
  "op_0x10 data m s = Inr s' \<longleftrightarrow>
     cursor s + 8 \<le> length data \<and>
     s' = advance 0x10 (emit (u16_at data (cursor s + 2), u16_at data (cursor s + 4),
                              u16_at data (cursor s + 6)) (replicate 3 (0, 0)) m s)"
proof -
  have eqs: "cursor s + 2 + 2 = cursor s + 4" "cursor s + 2 + 4 = cursor s + 6"
    "cursor s + 2 + 6 = cursor s + 8"
    by arith+
  show ?thesis
    unfolding op_0x10_def Let_def unpack_HHH_total eqs
    by (auto split: if_splits)
qed

lemma op_0x12_eq_Inr:
  "op_0x12 data m s = Inr s' \<longleftrightarrow>
     cursor s + 8 \<le> length data \<and>
     s' = advance 0x14 (emit (u16_at data (cursor s + 6), u16_at data (cursor s + 4),
                              u16_at data (cursor s + 2)) (replicate 3 (0, 0)) m s)"
proof -
  have eqs: "cursor s + 2 + 2 = cursor s + 4" "cursor s + 4 + 2 = cursor s + 6"
    "cursor s + 6 + 2 = cursor s + 8"
    by arith+
  show ?thesis
    unfolding op_0x12_def Let_def read_u16_total eqs
    by (auto split: if_splits)
qed

lemma op_tri_uv_eq_Inr:
  "op_tri_uv uvo len data m s = Inr s' \<longleftrightarrow>
     cursor s + 8 \<le> length data \<and> cursor s + uvo + 6 \<le> length data \<and>
     s' = advance len
            (emit (u16_at data (cursor s + 6), u16_at data (cursor s + 4), u16_at data (cursor s + 2))
               [uv_at data (cursor s + uvo + 4), uv_at data (cursor s + uvo + 2),
                uv_at data (cursor s + uvo)] m s)"
proof -
  have eqs: "cursor s + 2 + 2 = cursor s + 4" "cursor s + 4 + 2 = cursor s + 6"
    "cursor s + 6 + 2 = cursor s + 8"
    "cursor s + uvo + 2 + 1 = cursor s + uvo + 3" "cursor s + uvo + 4 + 1 = cursor s + uvo + 5"
    by arith+
  show ?thesis
    unfolding op_tri_uv_def Let_def read_u16_total uv_byte_total uv_at_def eqs
    by (auto split: if_splits)
qed

lemma op_quad_uv_eq_Inr:
  "op_quad_uv uvo len data m s = Inr s' \<longleftrightarrow>
     cursor s + 10 \<le> length data \<and> cursor s + uvo + 8 \<le> length data \<and>
     s' = advance len
            (emit (u16_at data (cursor s + 8), u16_at data (cursor s + 6), u16_at data (cursor s + 2))
               [uv_at data (cursor s + uvo + 6), uv_at data (cursor s + uvo + 4),
                uv_at data (cursor s + uvo)] m
            (emit (u16_at data (cursor s + 6), u16_at data (cursor s + 4), u16_at data (cursor s + 2))
               [uv_at data (cursor s + uvo + 4), uv_at data (cursor s + uvo + 2),
                uv_at data (cursor s + uvo)] m s))"
proof -
  have eqs: "cursor s + 2 + 2 = cursor s + 4" "cursor s + 4 + 2 = cursor s + 6"
    "cursor s + 6 + 2 = cursor s + 8" "cursor s + 8 + 2 = cursor s + 10"
    "cursor s + uvo + 2 + 1 = cursor s + uvo + 3" "cursor s + uvo + 4 + 1 = cursor s + uvo + 5"
    "cursor s + uvo + 6 + 1 = cursor s + uvo + 7"
    by arith+
  show ?thesis
    unfolding op_quad_uv_def Let_def read_u16_total uv_byte_total uv_at_def eqs
    by (auto split: if_splits)
qed

subsection \<open>One command\<close>

lemma parse_command_overrun:
  "length data \<le> cursor s \<Longrightarrow>
   parse_command data cmd_idx s = Inl (CommandBufferOverrun cmd_idx (cursor s))"
  by (simp add: parse_command_def)

lemma parse_command_last_byte:
  "cursor s + 1 = length data \<Longrightarrow> parse_command data cmd_idx s = Inl IndexError"
  by (simp add: parse_command_def getitem_def Let_def)

lemma parse_command_dispatch:
  "cursor s + 1 < length data \<Longrightarrow>
   parse_command data cmd_idx s =
     (let op = unat (data ! cursor s); mesh_id = unat (data ! (cursor s + 1)) in
      if op = 0x10 then op_0x10 data mesh_id s
      else if op = 0x12 then op_0x12 data mesh_id s
      else if op = 0x13 then op_0x13 s
      else if op = 0x14 then op_tri_uv 0x0A 0x14 data mesh_id s
      else if op = 0x15 then op_quad_uv 0x0C 0x18 data mesh_id s
      else if op = 0x16 then op_tri_uv 0x0E 0x18 data mesh_id s
      else if op = 0x17 then op_quad_uv 0x14 0x20 data mesh_id s
      else Inl (UnknownOpcode op (cursor s)))"
  by (simp add: parse_command_def getitem_def Let_def)

lemma parse_command_Inr_cursor:
  "parse_command data cmd_idx s = Inr s' \<Longrightarrow> cursor s + 1 < length data"
proof (rule ccontr)
  assume ok: "parse_command data cmd_idx s = Inr s'" and "\<not> cursor s + 1 < length data"
  then consider "length data \<le> cursor s" | "cursor s + 1 = length data"
    by arith
  then show False
    using ok by cases (simp_all add: parse_command_overrun parse_command_last_byte)
qed

lemma parse_command_unknown:
  "cursor s + 1 < length data \<Longrightarrow>
   unat (data ! cursor s) \<notin> {0x10, 0x12, 0x13, 0x14, 0x15, 0x16, 0x17} \<Longrightarrow>
   parse_command data cmd_idx s = Inl (UnknownOpcode (unat (data ! cursor s)) (cursor s))"
  by (simp add: parse_command_dispatch Let_def)

lemma parse_command_tris:
  assumes "parse_command data cmd_idx s = Inr s'"
  shows "tris s' = tris s @ command_triangles data (cursor s)"
proof -
  from assms have "cursor s + 1 < length data"
    by (rule parse_command_Inr_cursor)
  with assms show ?thesis
    by (auto simp add: parse_command_dispatch Let_def command_triangles_def
        op_0x10_eq_Inr op_0x12_eq_Inr op_0x13_def op_tri_uv_eq_Inr op_quad_uv_eq_Inr
        emit_def advance_def split: if_splits)
qed

subsection \<open>The three lists grow together\<close>

lemma lockstep_refl: "lockstep s s"
  unfolding lockstep_def by (rule exI [of _ "[]"]) simp

lemma lockstep_emit:
  assumes "lockstep s s1"
  shows "lockstep s (emit t u m s1)"
proof -
  from assms obtain rows where
    "tris s1 = tris s @ map fst rows"
    "uvs_per_tri s1 = uvs_per_tri s @ map (fst \<circ> snd) rows"
    "mat_ids s1 = mat_ids s @ map (snd \<circ> snd) rows"
    unfolding lockstep_def by blast
  then show ?thesis
    unfolding lockstep_def by (intro exI [of _ "rows @ [(t, u, m)]"]) (simp add: emit_def)
qed

lemma lockstep_advance: "lockstep s s1 \<Longrightarrow> lockstep s (advance k s1)"
  by (simp add: lockstep_def advance_def)

lemma lockstep_trans:
  assumes "lockstep s s1" "lockstep s1 s2"
  shows "lockstep s s2"
proof -
  from assms obtain r1 r2 where
    "tris s1 = tris s @ map fst r1"
    "uvs_per_tri s1 = uvs_per_tri s @ map (fst \<circ> snd) r1"
    "mat_ids s1 = mat_ids s @ map (snd \<circ> snd) r1"
    "tris s2 = tris s1 @ map fst r2"
    "uvs_per_tri s2 = uvs_per_tri s1 @ map (fst \<circ> snd) r2"
    "mat_ids s2 = mat_ids s1 @ map (snd \<circ> snd) r2"
    unfolding lockstep_def by blast
  then show ?thesis
    unfolding lockstep_def by (intro exI [of _ "r1 @ r2"]) simp
qed

lemma parse_command_lockstep:
  assumes "parse_command data cmd_idx s = Inr s'"
  shows "lockstep s s'"
proof -
  from assms have c: "cursor s + 1 < length data"
    by (rule parse_command_Inr_cursor)
  note intros = lockstep_refl lockstep_emit lockstep_advance
  from assms c show ?thesis
    by (auto simp add: parse_command_dispatch Let_def
        op_0x10_eq_Inr op_0x12_eq_Inr op_0x13_def op_tri_uv_eq_Inr op_quad_uv_eq_Inr
        intros split: if_splits)
qed

subsection \<open>The loop\<close>

lemma parse_loop_done:
  "\<not> cmd_idx < cmd_count \<Longrightarrow> parse_loop data cmd_count cmd_idx s = Inr s"
  by (simp add: parse_loop.simps [of data cmd_count cmd_idx])

lemma parse_loop_step:
  "cmd_idx < cmd_count \<Longrightarrow>
   parse_loop data cmd_count cmd_idx s =
     (case parse_command data cmd_idx s of
        Inl e \<Rightarrow> Inl e
      | Inr s' \<Rightarrow> parse_loop data cmd_count (Suc cmd_idx) s')"
  by (simp add: parse_loop.simps [of data cmd_count cmd_idx])

lemma parse_loop_lockstep:
  "parse_loop data cmd_count cmd_idx s = Inr s' \<Longrightarrow> lockstep s s'"
proof (induction data cmd_count cmd_idx s rule: parse_loop.induct)
  case (1 data cmd_count cmd_idx s)
  show ?case
  proof (cases "cmd_idx < cmd_count")
    case False
    with "1.prems" show ?thesis
      by (simp add: parse_loop.simps [of data cmd_count cmd_idx] lockstep_refl)
  next
    case True
    with "1.prems" obtain s1 where
      s1: "parse_command data cmd_idx s = Inr s1"
      and rest: "parse_loop data cmd_count (Suc cmd_idx) s1 = Inr s'"
      by (auto simp add: parse_loop.simps [of data cmd_count cmd_idx] split: sum.splits)
    from "1.IH" [OF True s1 rest] parse_command_lockstep [OF s1] show ?thesis
      by (blast intro: lockstep_trans)
  qed
qed

lemma lockstep_lengths:
  assumes "lockstep s s'"
    and "length (tris s) = length (uvs_per_tri s)" "length (uvs_per_tri s) = length (mat_ids s)"
  shows "length (tris s') = length (uvs_per_tri s') \<and>
         length (uvs_per_tri s') = length (mat_ids s')"
  using assms unfolding lockstep_def by auto

lemma parse_poly_commands_eq_Inr:
  "parse_poly_commands data cmd_off cmd_count = Inr (ts, uvs, mids) \<longleftrightarrow>
   (\<exists>s. parse_loop data cmd_count 0 (init_state cmd_off) = Inr s \<and>
        ts = tris s \<and> uvs = uvs_per_tri s \<and> mids = mat_ids s)"
  by (auto simp add: parse_poly_commands_def ebind_eq_Inr)

lemma parse_loop_prefix:
  "parse_loop data k i s0 = Inr s \<Longrightarrow> i \<le> k \<Longrightarrow> k \<le> cmd_count \<Longrightarrow>
   parse_loop data cmd_count i s0 = parse_loop data cmd_count k s"
proof (induction data k i s0 rule: parse_loop.induct)
  case (1 data k i s0)
  show ?case
  proof (cases "i < k")
    case False
    with "1.prems" show ?thesis
      by (simp add: parse_loop_done)
  next
    case True
    with "1.prems" obtain s1 where
      s1: "parse_command data i s0 = Inr s1"
      and rest: "parse_loop data k (Suc i) s1 = Inr s"
      by (auto simp add: parse_loop_step split: sum.splits)
    from True "1.prems" have "i < cmd_count"
      by simp
    then have "parse_loop data cmd_count i s0 = parse_loop data cmd_count (Suc i) s1"
      by (simp add: parse_loop_step s1)
    also from True have "\<dots> = parse_loop data cmd_count k s"
      using "1.IH" [OF True s1 rest] "1.prems" by simp
    finally show ?thesis .
  qed
qed

lemma parse_loop_fails_after_prefix:
  assumes "parse_loop data k 0 (init_state cmd_off) = Inr s" "k < cmd_count"
    and "parse_command data k s = Inl e"
  shows "parse_poly_commands data cmd_off cmd_count = Inl e"
proof -
  from assms(1,2) have "parse_loop data cmd_count 0 (init_state cmd_off) = parse_loop data cmd_count k s"
    by (intro parse_loop_prefix) simp_all
  also from assms(2,3) have "\<dots> = Inl e"
    by (simp add: parse_loop_step)
  finally show ?thesis
    by (simp add: parse_poly_commands_def)
qed

lemma parse_loop_triangles:
  "parse_loop data cmd_count cmd_idx s = Inr s' \<Longrightarrow>
   \<forall>t\<in>set (tris s'). t \<in> set (tris s) \<or>
      (\<exists>p. p + 1 < length data \<and> t \<in> set (command_triangles data p))"
proof (induction data cmd_count cmd_idx s rule: parse_loop.induct)
  case (1 data cmd_count cmd_idx s)
  show ?case
  proof (cases "cmd_idx < cmd_count")
    case False
    with "1.prems" show ?thesis
      by (simp add: parse_loop_done)
  next
    case True
    with "1.prems" obtain s1 where
      s1: "parse_command data cmd_idx s = Inr s1"
      and rest: "parse_loop data cmd_count (Suc cmd_idx) s1 = Inr s'"
      by (auto simp add: parse_loop_step split: sum.splits)
    have "tris s1 = tris s @ command_triangles data (cursor s)" "cursor s + 1 < length data"
      using s1 by (rule parse_command_tris, rule parse_command_Inr_cursor)
    with "1.IH" [OF True s1 rest] show ?thesis
      by auto
  qed
qed

subsection \<open>Running the interpreter on the samples\<close>

lemma replicate_3: "replicate 3 x = [x, x, x]"
  by (simp add: numeral_3_eq_3)

lemmas run_defs = replicate_3
  parse_poly_commands_def parse_loop.simps parse_command_def init_state_def getitem_def
  op_0x10_def op_0x12_def op_0x13_def op_tri_uv_def op_quad_uv_def
  read_u16_def unpack_HHH_def unpack_slice_def uv_byte_def emit_def advance_def Let_def

section \<open>Properties of the command stream interpreter\<close>

text \<open>
  Claim C1, as the code has it. For a 0x15 command at cursor \<open>p\<close> whose bytes
  \<open>p .. p + 0x13\<close> lie in the buffer, the interpreter reads the u16 indices
  \<open>a, b, c, d\<close> at \<open>p + 2, p + 4, p + 6, p + 8\<close>, appends exactly two triangles,
  \<open>(c, b, a)\<close> then \<open>(d, c, a)\<close>, both tagged with the mesh id byte at \<open>p + 1\<close>, and
  advances the cursor by 0x18. The four UV pairs at \<open>p + 0x0C .. p + 0x13\<close> are the
  corners C, B, A, D in file order (C at 0x0C, B at 0x0E, A at 0x10, D at 0x12); the first
  triangle gets (A, B, C) and the second (D, A, C). Reading the four pairs as A, B, C, D in
  file order is not what the code does: on \<open>sample_quad\<close> the first corner of the first
  triangle is the pair at 0x10, not the pair at 0x0C.
\<close>

theorem quad_0x15_command:
  assumes "cursor s + 0x14 \<le> length data" and "unat (data ! cursor s) = 0x15"
  shows "let p = cursor s;
             a = u16_at data (p + 2); b = u16_at data (p + 4);
             c = u16_at data (p + 6); d = u16_at data (p + 8);
             uvC = uv_at data (p + 0x0C); uvB = uv_at data (p + 0x0E);
             uvA = uv_at data (p + 0x10); uvD = uv_at data (p + 0x12);
             mesh_id = unat (data ! (p + 1))
         in parse_command data cmd_idx s =
              Inr (s\<lparr>cursor := p + 0x18,
                     tris := tris s @ [(c, b, a), (d, c, a)],
                     uvs_per_tri := uvs_per_tri s @ [[uvA, uvB, uvC], [uvD, uvA, uvC]],
                     mat_ids := mat_ids s @ [mesh_id, mesh_id]\<rparr>)"
proof -
  let ?m = "unat (data ! (cursor s + 1))"
  have eqs: "cursor s + 0x0C + 2 = cursor s + 0x0E" "cursor s + 0x0C + 4 = cursor s + 0x10"
    "cursor s + 0x0C + 6 = cursor s + 0x12"
    by arith+
  from assms(1) have c: "cursor s + 1 < length data"
    and b: "cursor s + 10 \<le> length data \<and> cursor s + 0x0C + 8 \<le> length data"
    by arith+
  have "op_quad_uv 0x0C 0x18 data ?m s =
      Inr (advance 0x18
            (emit (u16_at data (cursor s + 8), u16_at data (cursor s + 6), u16_at data (cursor s + 2))
               [uv_at data (cursor s + 0x12), uv_at data (cursor s + 0x10),
                uv_at data (cursor s + 0x0C)] ?m
            (emit (u16_at data (cursor s + 6), u16_at data (cursor s + 4), u16_at data (cursor s + 2))
               [uv_at data (cursor s + 0x10), uv_at data (cursor s + 0x0E),
                uv_at data (cursor s + 0x0C)] ?m s)))"
    using b by (simp only: op_quad_uv_eq_Inr eqs simp_thms)
  with c assms(2) show ?thesis
    by (simp add: parse_command_dispatch Let_def emit_def advance_def)
qed

theorem quad_0x15_command_witness:
  "cursor (init_state 0) + 0x14 \<le> length sample_quad \<and>
   unat (sample_quad ! cursor (init_state 0)) = 0x15 \<and>
   parse_command sample_quad 0 (init_state 0) =
     Inr \<lparr>cursor = 0x18, tris = [(3, 2, 1), (4, 3, 1)],
          uvs_per_tri = [[(48 / 256, 49 / 256), (32 / 256, 33 / 256), (16 / 256, 17 / 256)],
                         [(64 / 256, 65 / 256), (48 / 256, 49 / 256), (16 / 256, 17 / 256)]],
          mat_ids = [9, 9]\<rparr>"
proof -
  have h: "cursor (init_state 0) + 0x14 \<le> length sample_quad"
    "unat (sample_quad ! cursor (init_state 0)) = 0x15"
    by (simp_all add: init_state_def sample_quad_def)
  from quad_0x15_command [OF h, of 0] h show ?thesis
    by (simp add: Let_def init_state_def sample_quad_def u16_at_def uv_at_def)
qed

theorem quad_0x15_uv_order_counterexample:
  "parse_poly_commands sample_quad 0 1 =
     Inr ([(3, 2, 1), (4, 3, 1)],
          [[uv_at sample_quad 0x10, uv_at sample_quad 0x0E, uv_at sample_quad 0x0C],
           [uv_at sample_quad 0x12, uv_at sample_quad 0x10, uv_at sample_quad 0x0C]],
          [9, 9]) \<and>
   parse_poly_commands sample_quad 0 1 \<noteq>
     Inr ([(3, 2, 1), (4, 3, 1)],
          [[uv_at sample_quad 0x0C, uv_at sample_quad 0x0E, uv_at sample_quad 0x10],
           [uv_at sample_quad 0x12, uv_at sample_quad 0x0C, uv_at sample_quad 0x10]],
          [9, 9])"
  by (simp add: run_defs sample_quad_def uv_at_def)

text \<open>
  Claim C4. For a 0x14 command at cursor \<open>p\<close> whose bytes \<open>p .. p + 0x0F\<close> lie in the
  buffer, the interpreter reads the u16 indices \<open>a, b, c\<close> at \<open>p + 2, p + 4, p + 6\<close>,
  appends the one triangle \<open>(c, b, a)\<close> with the UV corners: corner 0 from the bytes at
  0x0E and 0x0F, corner 1 from 0x0C and 0x0D, corner 2 from 0x0A and 0x0B, each byte divided by
  256; it advances the cursor by 0x14. The witness is the record with indices (1, 2, 3) and
  UV bytes 128, 64 / 0, 0 / 255, 255: triangle (3, 2, 1), corners (255/256, 255/256), (0, 0),
  (1/2, 1/4).
\<close>

theorem tri_0x14_command:
  assumes "cursor s + 0x10 \<le> length data" and "unat (data ! cursor s) = 0x14"
  shows "let p = cursor s;
             a = u16_at data (p + 2); b = u16_at data (p + 4); c = u16_at data (p + 6);
             uv0 = uv_at data (p + 0x0E); uv1 = uv_at data (p + 0x0C);
             uv2 = uv_at data (p + 0x0A);
             mesh_id = unat (data ! (p + 1))
         in parse_command data cmd_idx s =
              Inr (s\<lparr>cursor := p + 0x14,
                     tris := tris s @ [(c, b, a)],
                     uvs_per_tri := uvs_per_tri s @ [[uv0, uv1, uv2]],
                     mat_ids := mat_ids s @ [mesh_id]\<rparr>)"
proof -
  let ?m = "unat (data ! (cursor s + 1))"
  have eqs: "cursor s + 0x0A + 2 = cursor s + 0x0C" "cursor s + 0x0A + 4 = cursor s + 0x0E"
    by arith+
  from assms(1) have c: "cursor s + 1 < length data"
    and b: "cursor s + 8 \<le> length data \<and> cursor s + 0x0A + 6 \<le> length data"
    by arith+
  have "op_tri_uv 0x0A 0x14 data ?m s =
      Inr (advance 0x14
            (emit (u16_at data (cursor s + 6), u16_at data (cursor s + 4), u16_at data (cursor s + 2))
               [uv_at data (cursor s + 0x0E), uv_at data (cursor s + 0x0C),
                uv_at data (cursor s + 0x0A)] ?m s))"
    using b by (simp only: op_tri_uv_eq_Inr eqs simp_thms)
  with c assms(2) show ?thesis
    by (simp add: parse_command_dispatch Let_def emit_def advance_def)
qed

theorem tri_0x14_command_witness:
  "cursor (init_state 0) + 0x10 \<le> length sample_tri_uv \<and>
   unat (sample_tri_uv ! cursor (init_state 0)) = 0x14 \<and>
   parse_command sample_tri_uv 0 (init_state 0) =
     Inr \<lparr>cursor = 0x14, tris = [(3, 2, 1)],
          uvs_per_tri = [[(255 / 256, 255 / 256), (0, 0), (1 / 2, 1 / 4)]],
          mat_ids = [9]\<rparr>"
proof -
  have h: "cursor (init_state 0) + 0x10 \<le> length sample_tri_uv"
    "unat (sample_tri_uv ! cursor (init_state 0)) = 0x14"
    by (simp_all add: init_state_def sample_tri_uv_def)
  from tri_0x14_command [OF h, of 0] h show ?thesis
    by (simp add: Let_def init_state_def sample_tri_uv_def u16_at_def uv_at_def)
qed

text \<open>
  Claim C2, as the code has it. The only check is on the cursor, before each command: when
  the first \<open>k\<close> commands have been decoded, a further command is due (\<open>k < cmd_count\<close>)
  and the cursor \<open>p\<close> is not below the length of the buffer, the interpreter fails with
  CommandBufferOverrun naming the command index \<open>k\<close> and the offset \<open>p\<close>. The declared
  length of the last command is never compared with the buffer: \<open>short_tri\<close> holds a 0x10
  record cut to its first 8 bytes (the declared length is 0x10), and decoding it as the only
  command succeeds.
\<close>

theorem overrun_at_command_start:
  assumes "parse_loop data k 0 (init_state cmd_off) = Inr s"
    and "k < cmd_count"
    and "length data \<le> cursor s"
  shows "parse_poly_commands data cmd_off cmd_count = Inl (CommandBufferOverrun k (cursor s))"
  using assms(1,2) parse_command_overrun [OF assms(3)]
  by (rule parse_loop_fails_after_prefix)

theorem overrun_at_command_start_witness:
  "parse_loop short_tri 1 0 (init_state 0) =
     Inr \<lparr>cursor = 0x10, tris = [(1, 2, 3)], uvs_per_tri = [[(0, 0), (0, 0), (0, 0)]],
          mat_ids = [7]\<rparr> \<and>
   (1::nat) < 2 \<and> length short_tri \<le> 0x10 \<and>
   parse_poly_commands short_tri 0 2 = Inl (CommandBufferOverrun 1 0x10)"
proof -
  let ?s = "\<lparr>cursor = 0x10, tris = [(1, 2, 3)], uvs_per_tri = [[(0, 0), (0, 0), (0, 0)]],
          mat_ids = [7]\<rparr>"
  have h1: "parse_loop short_tri 1 0 (init_state 0) = Inr ?s"
    by (simp add: run_defs short_tri_def)
  have h2: "(1::nat) < 2" by simp
  have h3: "length short_tri \<le> cursor ?s"
    by (simp add: short_tri_def)
  from overrun_at_command_start [OF h1 h2 h3] h1 h3 show ?thesis
    by simp
qed

theorem last_record_overrun_counterexample:
  "length short_tri < 0 + 0x10 \<and>
   parse_poly_commands short_tri 0 1 = Inr ([(1, 2, 3)], [[(0, 0), (0, 0), (0, 0)]], [7])"
  by (simp add: run_defs short_tri_def)

text \<open>
  Claim C7, as the code has it. The mesh id byte at \<open>p + 1\<close> is read before the opcode is
  looked at. When the first \<open>k\<close> commands have been decoded, a further command is due, its
  opcode byte at the cursor \<open>p\<close> is none of 0x10, 0x12, 0x13, 0x14, 0x15, 0x16, 0x17 and the
  byte at \<open>p + 1\<close> lies in the buffer, the whole run fails with UnknownOpcode naming the
  opcode and \<open>p\<close>, whatever follows: no further command is processed. An unknown opcode
  in the last byte of the buffer gives IndexError instead.
\<close>

theorem unknown_opcode_fatal:
  assumes "parse_loop data k 0 (init_state cmd_off) = Inr s"
    and "k < cmd_count"
    and "cursor s + 1 < length data"
    and "unat (data ! cursor s) \<notin> {0x10, 0x12, 0x13, 0x14, 0x15, 0x16, 0x17}"
  shows "parse_poly_commands data cmd_off cmd_count =
           Inl (UnknownOpcode (unat (data ! cursor s)) (cursor s))"
  using assms(1,2) parse_command_unknown [OF assms(3,4)]
  by (rule parse_loop_fails_after_prefix)

theorem unknown_opcode_fatal_witness:
  "parse_loop unknown_stream 1 0 (init_state 0) =
     Inr \<lparr>cursor = 0x16, tris = [], uvs_per_tri = [], mat_ids = []\<rparr> \<and>
   (1::nat) < 3 \<and> 0x16 + 1 < length unknown_stream \<and>
   unat (unknown_stream ! 0x16) \<notin> {0x10, 0x12, 0x13, 0x14, 0x15, 0x16, 0x17} \<and>
   parse_poly_commands unknown_stream 0 3 = Inl (UnknownOpcode 0xFF 0x16)"
proof -
  let ?s = "\<lparr>cursor = 0x16, tris = [], uvs_per_tri = [], mat_ids = []\<rparr>"
  have h1: "parse_loop unknown_stream 1 0 (init_state 0) = Inr ?s"
    by (simp add: run_defs unknown_stream_def)
  have h2: "(1::nat) < 3" by simp
  have h3: "cursor ?s + 1 < length unknown_stream"
    by (simp add: unknown_stream_def)
  have h4: "unat (unknown_stream ! cursor ?s) \<notin> {0x10, 0x12, 0x13, 0x14, 0x15, 0x16, 0x17}"
    by (simp add: unknown_stream_def nth_append)
  have v: "unat (unknown_stream ! cursor ?s) = 0xFF"
    by (simp add: unknown_stream_def nth_append)
  from unknown_opcode_fatal [OF h1 h2 h3 h4] h1 h3 h4 v show ?thesis
    by simp
qed

theorem unknown_opcode_last_byte_counterexample:
  "parse_poly_commands [0xFF] 0 1 = Inl IndexError \<and>
   parse_poly_commands [0xFF] 0 1 \<noteq> Inl (UnknownOpcode 0xFF 0)"
  by (simp add: run_defs)

text \<open>
  Claim C3. Whenever the interpreter succeeds, the three returned lists have the same
  length; and every command that decodes appends the same rows (triangle, UV triple, mesh id)
  to all three lists, so that equal positions belong to the same triangle.
\<close>

theorem parallel_outputs:
  "(parse_poly_commands data cmd_off cmd_count = Inr (ts, uvs, mids) \<longrightarrow>
      length ts = length uvs \<and> length uvs = length mids) \<and>
   (parse_command data cmd_idx s = Inr s' \<longrightarrow>
      (\<exists>rows. tris s' = tris s @ map fst rows \<and>
              uvs_per_tri s' = uvs_per_tri s @ map (fst \<circ> snd) rows \<and>
              mat_ids s' = mat_ids s @ map (snd \<circ> snd) rows))"
proof (rule conjI; rule impI)
  assume "parse_poly_commands data cmd_off cmd_count = Inr (ts, uvs, mids)"
  then obtain sf where sf: "parse_loop data cmd_count 0 (init_state cmd_off) = Inr sf"
    and out: "ts = tris sf" "uvs = uvs_per_tri sf" "mids = mat_ids sf"
    unfolding parse_poly_commands_eq_Inr by blast
  from parse_loop_lockstep [OF sf] have "lockstep (init_state cmd_off) sf" .
  then have "length (tris sf) = length (uvs_per_tri sf) \<and>
      length (uvs_per_tri sf) = length (mat_ids sf)"
    by (rule lockstep_lengths) (simp_all add: init_state_def)
  with out show "length ts = length uvs \<and> length uvs = length mids"
    by simp
next
  assume "parse_command data cmd_idx s = Inr s'"
  then have "lockstep s s'"
    by (rule parse_command_lockstep)
  then show "\<exists>rows. tris s' = tris s @ map fst rows \<and>
              uvs_per_tri s' = uvs_per_tri s @ map (fst \<circ> snd) rows \<and>
              mat_ids s' = mat_ids s @ map (snd \<circ> snd) rows"
    by (simp only: lockstep_def)
qed

theorem parallel_outputs_witness:
  "parse_poly_commands sample_quad 0 1 =
     Inr ([(3, 2, 1), (4, 3, 1)],
          [[(48 / 256, 49 / 256), (32 / 256, 33 / 256), (16 / 256, 17 / 256)],
           [(64 / 256, 65 / 256), (48 / 256, 49 / 256), (16 / 256, 17 / 256)]],
          [9, 9]) \<and>
   length [(3::nat, 2::nat, 1::nat), (4, 3, 1)] = length [9::nat, 9] \<and>
   parse_command sample_quad 0 (init_state 0) =
     Inr \<lparr>cursor = 0x18, tris = [(3, 2, 1), (4, 3, 1)],
          uvs_per_tri =
            [[(48 / 256, 49 / 256), (32 / 256, 33 / 256), (16 / 256, 17 / 256)],
             [(64 / 256, 65 / 256), (48 / 256, 49 / 256), (16 / 256, 17 / 256)]],
          mat_ids = [9, 9]\<rparr> \<and>
   (\<exists>rows. [(3::nat, 2::nat, 1::nat), (4, 3, 1)] = [] @ map fst rows \<and>
      ([[(48 / 256, 49 / 256), (32 / 256, 33 / 256), (16 / 256, 17 / 256)],
        [(64 / 256, 65 / 256), (48 / 256, 49 / 256), (16 / 256, 17 / 256)]] :: uv list list) =
        [] @ map (fst \<circ> snd) rows \<and>
      [9::nat, 9] = [] @ map (snd \<circ> snd) rows)"
proof -
  let ?ts = "[(3::nat, 2::nat, 1::nat), (4, 3, 1)]"
  let ?uvs = "[[(48 / 256, 49 / 256), (32 / 256, 33 / 256), (16 / 256, 17 / 256)],
           [(64 / 256, 65 / 256), (48 / 256, 49 / 256), (16 / 256, 17 / 256)]] :: uv list list"
  let ?mids = "[9::nat, 9]"
  let ?s' = "\<lparr>cursor = 0x18, tris = ?ts, uvs_per_tri = ?uvs, mat_ids = ?mids\<rparr>"
  have h1: "parse_poly_commands sample_quad 0 1 = Inr (?ts, ?uvs, ?mids)"
    by (simp add: run_defs sample_quad_def)
  have h2: "parse_command sample_quad 0 (init_state 0) = Inr ?s'"
    by (simp add: run_defs sample_quad_def)
  from parallel_outputs [where data = sample_quad and cmd_off = 0 and cmd_count = 1
      and ts = ?ts and uvs = ?uvs and mids = ?mids and cmd_idx = 0 and s = "init_state 0"
      and s' = ?s'] h1 h2
  show ?thesis
    by (simp add: init_state_def)
qed

text \<open>
  Claim C9. A command that decodes appends exactly the index triples of its record: the raw
  u16 values at \<open>p + 2, p + 4, p + 6, p + 8\<close> in the order of its opcode. So every triangle
  of a successful run is such a triple of some record in the buffer. Nothing compares an
  index with the vertex count: the interpreter is not given it, and the decoding of a file
  succeeds as soon as the header, the vertices and the commands decode. In \<open>sample_file\<close>
  the vertex count is 1 and the triangle is (7, 6, 5).
\<close>

theorem indices_raw_unvalidated:
  "(parse_command data cmd_idx s = Inr s' \<longrightarrow>
      tris s' = tris s @ command_triangles data (cursor s)) \<and>
   (parse_poly_commands data cmd_off cmd_count = Inr (ts, uvs, mids) \<longrightarrow>
      (\<forall>t\<in>set ts. \<exists>p. p + 1 < length data \<and> t \<in> set (command_triangles data p))) \<and>
   (decode_header data = Inr hdr \<and>
    read_vertices data (vert_offset hdr) (vertex_count hdr) = Inr verts \<and>
    parse_poly_commands data (cmd_offset hdr) (poly_cmd_count hdr) = Inr (ts', uvs', mids') \<longrightarrow>
      decode data = Inr (verts, ts', uvs', mids'))"
proof (intro conjI)
  show "parse_command data cmd_idx s = Inr s' \<longrightarrow>
      tris s' = tris s @ command_triangles data (cursor s)"
    by (simp add: parse_command_tris)
next
  show "parse_poly_commands data cmd_off cmd_count = Inr (ts, uvs, mids) \<longrightarrow>
      (\<forall>t\<in>set ts. \<exists>p. p + 1 < length data \<and> t \<in> set (command_triangles data p))"
  proof
    assume "parse_poly_commands data cmd_off cmd_count = Inr (ts, uvs, mids)"
    then obtain sf where sf: "parse_loop data cmd_count 0 (init_state cmd_off) = Inr sf"
      and out: "ts = tris sf"
      unfolding parse_poly_commands_eq_Inr by blast
    from parse_loop_triangles [OF sf] out
    show "\<forall>t\<in>set ts. \<exists>p. p + 1 < length data \<and> t \<in> set (command_triangles data p)"
      by (simp add: init_state_def)
  qed
next
  show "decode_header data = Inr hdr \<and>
    read_vertices data (vert_offset hdr) (vertex_count hdr) = Inr verts \<and>
    parse_poly_commands data (cmd_offset hdr) (poly_cmd_count hdr) = Inr (ts', uvs', mids') \<longrightarrow>
      decode data = Inr (verts, ts', uvs', mids')"
    by (simp add: decode_def)
qed

theorem indices_raw_unvalidated_witness:
  "decode_header sample_file =
     Inr \<lparr>vertex_count = 1, poly_cmd_count = 1, mesh_count = 0, vert_offset = 0x30,
          plane_offset = 0, normal_offset = 0, cmd_offset = 0x3C\<rparr> \<and>
   read_vertices sample_file 0x30 1 = Inr [(Finite True 1, Finite True 2, Finite False 3)] \<and>
   parse_poly_commands sample_file 0x3C 1 = Inr ([(7, 6, 5)], [[(0, 0), (0, 0), (0, 0)]], [4]) \<and>
   parse_command sample_file 0 (init_state 0x3C) =
     Inr \<lparr>cursor = 0x50, tris = [(7, 6, 5)], uvs_per_tri = [[(0, 0), (0, 0), (0, 0)]],
          mat_ids = [4]\<rparr> \<and>
   command_triangles sample_file 0x3C = [(7, 6, 5)] \<and>
   decode sample_file =
     Inr ([(Finite True 1, Finite True 2, Finite False 3)],
          [(7, 6, 5)], [[(0, 0), (0, 0), (0, 0)]], [4]) \<and>
   (\<exists>p. p + 1 < length sample_file \<and> (7, 6, 5) \<in> set (command_triangles sample_file p))"
proof -
  let ?hdr = "\<lparr>vertex_count = 1, poly_cmd_count = 1, mesh_count = 0, vert_offset = 0x30,
          plane_offset = 0, normal_offset = 0, cmd_offset = 0x3C\<rparr>"
  let ?verts = "[(Finite True 1, Finite True 2, Finite False 3)]"
  let ?ts = "[(7::nat, 6::nat, 5::nat)]"
  let ?uvs = "[[(0::real, 0::real), (0, 0), (0, 0)]]"
  let ?mids = "[4::nat]"
  let ?s' = "\<lparr>cursor = 0x50, tris = ?ts, uvs_per_tri = ?uvs, mat_ids = ?mids\<rparr>"
  have h1: "decode_header sample_file = Inr ?hdr"
    by (simp add: decode_header_def read_u16_def read_u32_def unpack_slice_def sample_file_def)
  have h2: "read_vertices sample_file 0x30 1 = Inr ?verts"
    by (simp add: read_vertices_eq vertex_at_def f32_at_def f32_value_def sample_file_def
        round_double_small)
  have h3: "parse_poly_commands sample_file 0x3C 1 = Inr (?ts, ?uvs, ?mids)"
    by (simp add: run_defs sample_file_def)
  have h4: "parse_command sample_file 0 (init_state 0x3C) = Inr ?s'"
    by (simp add: run_defs sample_file_def)
  have h5: "command_triangles sample_file 0x3C = ?ts"
    by (simp add: command_triangles_def u16_at_def sample_file_def)
  from indices_raw_unvalidated [where data = sample_file and cmd_idx = 0
      and s = "init_state 0x3C" and s' = ?s' and cmd_off = "0x3C" and cmd_count = 1
      and ts = ?ts and uvs = ?uvs and mids = ?mids and hdr = ?hdr and verts = ?verts
      and ts' = ?ts and uvs' = ?uvs and mids' = ?mids] h1 h2 h3 h4 h5
  show ?thesis
    by (simp add: init_state_def)
qed

text \<open>
  Claim C10. With a count of zero both loops are not entered: the vertex decoder returns
  the empty list for every offset, and the interpreter returns three empty lists for every
  offset, also one past the end of the buffer.
\<close>

theorem zero_counts_succeed:
  "read_vertices data vert_off 0 = Inr [] \<and>
   parse_poly_commands data cmd_off 0 = Inr ([], [], [])"
  by (simp add: read_vertices_eq parse_poly_commands_def parse_loop_done init_state_def)

end
